theory Spec2Isabelle
  imports Main
begin

section \<open>The environment of \<^verbatim>\<open>scripts/generate_overview.py\<close>\<close>

text \<open>
  The script prints a rendering of the directory \<^verbatim>\<open>src\<close> and then the contents of
  every file below it. Everything it does goes through four collaborators: \<^verbatim>\<open>print\<close>,
  \<^verbatim>\<open>os.walk\<close> with \<^verbatim>\<open>os.path.join\<close>, \<^verbatim>\<open>open\<close> with \<^verbatim>\<open>read\<close>, and
  \<^verbatim>\<open>DisplayTree\<close> of the third-party package \<^verbatim>\<open>directory_tree\<close>. The first three
  are modelled here on a file-system tree, as CPython on POSIX defines them; the last is a
  parameter of the model.
\<close>

subsection \<open>Exceptions and the file system\<close>

datatype py_error =
    FileNotFoundError
  | NotADirectoryError
  | IsADirectoryError
  | PermissionError
  | UnicodeDecodeError

text \<open>
  What a name that is not a directory holds, as far as \<^verbatim>\<open>open(path, "r")\<close> and
  \<^verbatim>\<open>read()\<close> can tell: bytes that are valid text in the default encoding (identified
  with the text they encode), bytes that do not decode, a file the process may not open,
  or nothing at all (a link that leads nowhere).
\<close>

datatype file_data = Text string | Binary | Denied | Missing

text \<open>
  The nodes of the file system: a regular file; a special file (a device, a socket), with
  what opening and reading it gives; a directory that can be listed; a directory that can
  be searched but not listed; a symbolic link, with the node it leads to, if any. The
  file system does not change during a run, so a link carries a copy of what it leads to.
  A named pipe, whose \<^verbatim>\<open>open\<close> may never return, is not modelled.
\<close>

datatype node =
    File file_data
  | Special file_data
  | Dir "(string \<times> node) list"
  | Locked "(string \<times> node) list"
  | Link "node option"

abbreviation LF :: char where "LF \<equiv> CHR 0x0A"

abbreviation CR :: char where "CR \<equiv> CHR 0x0D"

text \<open>
  Paths are relative to the directory the process runs in, which is the root of the
  modelled tree. A path is split at \<^verbatim>\<open>/\<close>; empty components and \<^verbatim>\<open>.\<close> are skipped,
  the empty path names nothing. Links are followed, in the middle of a path and at its
  end. There are no parent entries in the model.
\<close>

fun split_path :: "string \<Rightarrow> string list" where
  "split_path [] = [[]]"
| "split_path (c # cs) =
     (if c = CHR ''/'' then [] # split_path cs
      else (case split_path cs of [] \<Rightarrow> [[c]] | x # xs \<Rightarrow> (c # x) # xs))"

definition components :: "string \<Rightarrow> string list" where
  "components p = filter (\<lambda>c. c \<noteq> [] \<and> c \<noteq> ''.'') (split_path p)"

fun target :: "node \<Rightarrow> node option" where
  "target (Link None) = None"
| "target (Link (Some n)) = target n"
| "target n = Some n"

definition entry :: "node \<Rightarrow> string \<Rightarrow> node option" where
  "entry n c =
     (case target n of
        Some (Dir es) \<Rightarrow> map_of es c
      | Some (Locked es) \<Rightarrow> map_of es c
      | _ \<Rightarrow> None)"

fun lookup_path :: "node \<Rightarrow> string list \<Rightarrow> node option" where
  "lookup_path n [] = Some n"
| "lookup_path n (c # cs) =
     (case entry n c of None \<Rightarrow> None | Some m \<Rightarrow> lookup_path m cs)"

definition resolve :: "node \<Rightarrow> string \<Rightarrow> node option" where
  "resolve fs p =
     (if p = [] then None
      else case lookup_path fs (components p) of None \<Rightarrow> None | Some n \<Rightarrow> target n)"

text \<open>
  A directory entry has a non-empty name without \<^verbatim>\<open>/\<close>, other than \<^verbatim>\<open>.\<close> and
  \<^verbatim>\<open>..\<close>, and the names of one directory are distinct.
\<close>

definition wf_name :: "string \<Rightarrow> bool" where
  "wf_name name = (name \<noteq> [] \<and> CHR ''/'' \<notin> set name \<and> name \<noteq> ''.'' \<and> name \<noteq> ''..'')"

fun wf_node :: "node \<Rightarrow> bool" and wf_entries :: "(string \<times> node) list \<Rightarrow> bool" where
  "wf_node (File d) = True"
| "wf_node (Special d) = True"
| "wf_node (Dir es) = (distinct (map fst es) \<and> wf_entries es)"
| "wf_node (Locked es) = (distinct (map fst es) \<and> wf_entries es)"
| "wf_node (Link None) = True"
| "wf_node (Link (Some n)) = wf_node n"
| "wf_entries [] = True"
| "wf_entries ((name, n) # es) = (wf_name name \<and> wf_node n \<and> wf_entries es)"

subsection \<open>\<^verbatim>\<open>os.path.join\<close> and \<^verbatim>\<open>os.walk\<close>\<close>

text \<open>
  \<^verbatim>\<open>posixpath.join(a, b)\<close>: an absolute \<^verbatim>\<open>b\<close> replaces \<^verbatim>\<open>a\<close>; otherwise \<^verbatim>\<open>b\<close> is
  appended, after a separator unless \<^verbatim>\<open>a\<close> is empty or ends with one.
\<close>

definition join :: "string \<Rightarrow> string \<Rightarrow> string" where
  "join a b =
     (if b \<noteq> [] \<and> hd b = CHR ''/'' then b
      else if a = [] \<or> last a = CHR ''/'' then a @ b
      else a @ ''/'' @ b)"

text \<open>
  \<^verbatim>\<open>DirEntry.is_dir()\<close>, which follows links, and \<^verbatim>\<open>islink\<close>.
\<close>

fun is_dir :: "node \<Rightarrow> bool" where
  "is_dir (Dir es) = True"
| "is_dir (Locked es) = True"
| "is_dir (Link (Some n)) = is_dir n"
| "is_dir (Link None) = False"
| "is_dir (File d) = False"
| "is_dir (Special d) = False"

fun is_link :: "node \<Rightarrow> bool" where
  "is_link (Link t) = True"
| "is_link (File d) = False"
| "is_link (Special d) = False"
| "is_link (Dir es) = False"
| "is_link (Locked es) = False"

definition dirnames :: "(string \<times> node) list \<Rightarrow> string list" where
  "dirnames es = map fst (filter (\<lambda>e. is_dir (snd e)) es)"

definition filenames :: "(string \<times> node) list \<Rightarrow> string list" where
  "filenames es = map fst (filter (\<lambda>e. \<not> is_dir (snd e)) es)"

text \<open>
  \<^verbatim>\<open>os.walk(top)\<close>, top-down, \<^verbatim>\<open>onerror=None\<close>, \<^verbatim>\<open>followlinks=False\<close>: a \<^verbatim>\<open>top\<close>
  that cannot be scanned (it is no directory, or it cannot be listed) yields nothing: the
  \<^verbatim>\<open>OSError\<close> of \<^verbatim>\<open>scandir\<close> is swallowed. Otherwise it yields
  \<^verbatim>\<open>(top, dirs, nondirs)\<close> in scan order, where \<^verbatim>\<open>dirs\<close> holds the entries that are
  directories or links to one and \<^verbatim>\<open>nondirs\<close> all others, and then walks
  \<^verbatim>\<open>join(top, d)\<close> for each \<^verbatim>\<open>d\<close> of \<^verbatim>\<open>dirs\<close> that is not a link. The generator is
  lazy; the file system does not change while the script runs, so the model yields the
  whole list at once.
\<close>

fun os_walk_node :: "string \<Rightarrow> node \<Rightarrow> (string \<times> string list \<times> string list) list"
  and os_walk_dirs :: "string \<Rightarrow> (string \<times> node) list \<Rightarrow> (string \<times> string list \<times> string list) list"
where
  "os_walk_node topdir (Dir es) = (topdir, dirnames es, filenames es) # os_walk_dirs topdir es"
| "os_walk_node topdir (Locked es) = []"
| "os_walk_node topdir (File d) = []"
| "os_walk_node topdir (Special d) = []"
| "os_walk_node topdir (Link t) = []"
| "os_walk_dirs topdir [] = []"
| "os_walk_dirs topdir ((name, n) # es) =
     (if is_dir n \<and> \<not> is_link n then os_walk_node (join topdir name) n else [])
     @ os_walk_dirs topdir es"

definition os_walk :: "node \<Rightarrow> string \<Rightarrow> (string \<times> string list \<times> string list) list" where
  "os_walk fs topdir = (case resolve fs topdir of None \<Rightarrow> [] | Some n \<Rightarrow> os_walk_node topdir n)"

subsection \<open>Standard output and file handles\<close>

datatype fd_event = Opened string | Closed string

record pstate =
  stdout :: string
  fd_log :: "fd_event list"

definition init :: pstate where
  "init = \<lparr>stdout = [], fd_log = []\<rparr>"

text \<open>\<^verbatim>\<open>print(s)\<close> writes \<^verbatim>\<open>s\<close> and a newline.\<close>

definition print :: "string \<Rightarrow> pstate \<Rightarrow> pstate" where
  "print s st = st\<lparr>stdout := stdout st @ s @ [LF]\<rparr>"

text \<open>
  \<^verbatim>\<open>open(path, "r")\<close>: the handle it returns stands for the file's data. Text mode reads
  with universal newlines: \<^verbatim>\<open>\r\n\<close> and a lone \<^verbatim>\<open>\r\<close> arrive as \<^verbatim>\<open>\n\<close>.
\<close>

fun open_data :: "file_data \<Rightarrow> py_error + file_data" where
  "open_data Denied = Inl PermissionError"
| "open_data Missing = Inl FileNotFoundError"
| "open_data (Text s) = Inr (Text s)"
| "open_data Binary = Inr Binary"

definition open_r :: "node \<Rightarrow> string \<Rightarrow> py_error + file_data" where
  "open_r fs path =
     (case resolve fs path of
        None \<Rightarrow> Inl FileNotFoundError
      | Some (Dir es) \<Rightarrow> Inl IsADirectoryError
      | Some (Locked es) \<Rightarrow> Inl IsADirectoryError
      | Some (Link t) \<Rightarrow> Inl FileNotFoundError
      | Some (File d) \<Rightarrow> open_data d
      | Some (Special d) \<Rightarrow> open_data d)"

fun universal_newlines :: "string \<Rightarrow> string" where
  "universal_newlines [] = []"
| "universal_newlines [c] = [if c = CR then LF else c]"
| "universal_newlines (c # d # cs) =
     (if c = CR \<and> d = LF then LF # universal_newlines cs
      else if c = CR then LF # universal_newlines (d # cs)
      else c # universal_newlines (d # cs))"

fun read :: "file_data \<Rightarrow> py_error + string" where
  "read (Text s) = Inr (universal_newlines s)"
| "read Binary = Inl UnicodeDecodeError"
| "read Denied = Inl PermissionError"
| "read Missing = Inl FileNotFoundError"

section \<open>The script\<close>

text \<open>
  A statement maps the state to the exception it raised, if any, and the state it left.
\<close>

type_synonym outcome = "py_error option \<times> pstate"

type_synonym tree_renderer = "node \<Rightarrow> string \<Rightarrow> string \<times> py_error option"

text \<open>
  \<^verbatim>\<open>DisplayTree(dir)\<close> prints some text and may raise: a renderer gives, for a file
  system and a path, the text printed and the exception raised, if any.
  \<^verbatim>\<open>
  def print_tree(dir):
      print("Directory tree:")
      print("```")
      DisplayTree(dir)
      print("```")
      print("\n")
  \<close>
\<close>

definition print_tree :: "tree_renderer \<Rightarrow> node \<Rightarrow> string \<Rightarrow> pstate \<Rightarrow> outcome" where
  "print_tree DisplayTree fs dir st =
     (let st1 = print ''Directory tree:'' st;
          st2 = print ''```'' st1;
          (txt, raised) = DisplayTree fs dir;
          st3 = st2\<lparr>stdout := stdout st2 @ txt\<rparr>
      in case raised of
           Some e \<Rightarrow> (Some e, st3)
         | None \<Rightarrow> (None, print [LF] (print ''```'' st3)))"

text \<open>
  \<^verbatim>\<open>
  with open(os.path.join(root, file), "r") as f:
      print(f.read())
  \<close>
  When \<^verbatim>\<open>open\<close> raises there is no handle. Once it has returned, the handle is closed
  when the block is left, whether \<^verbatim>\<open>read\<close> returned or raised.
\<close>

definition with_open_print :: "node \<Rightarrow> string \<Rightarrow> pstate \<Rightarrow> outcome" where
  "with_open_print fs path st =
     (case open_r fs path of
        Inl e \<Rightarrow> (Some e, st)
      | Inr f \<Rightarrow>
          (let st1 = st\<lparr>fd_log := fd_log st @ [Opened path]\<rparr>;
               (raised, st2) =
                 (case read f of
                    Inl e \<Rightarrow> (Some e, st1)
                  | Inr s \<Rightarrow> (None, print s st1))
           in (raised, st2\<lparr>fd_log := fd_log st2 @ [Closed path]\<rparr>)))"

text \<open>
  \<^verbatim>\<open>
  def print_files(dir):
      for root, _dirs, files in os.walk(dir):
          for file in files:
              print(f"{os.path.join(root, file)}:")
              print("```rust")
              with open(os.path.join(root, file), "r") as f:
                  print(f.read())
              print("```\n")
  \<close>
  The inner loop, the outer loop, and the function.
\<close>

fun print_files_in :: "node \<Rightarrow> string \<Rightarrow> string list \<Rightarrow> pstate \<Rightarrow> outcome" where
  "print_files_in fs root [] st = (None, st)"
| "print_files_in fs root (file # files) st =
     (let st1 = print (join root file @ '':'') st;
          st2 = print ''```rust'' st1;
          (raised, st3) = with_open_print fs (join root file) st2
      in case raised of
           Some e \<Rightarrow> (Some e, st3)
         | None \<Rightarrow> print_files_in fs root files (print (''```'' @ [LF]) st3))"

fun print_files_over :: "node \<Rightarrow> (string \<times> string list \<times> string list) list \<Rightarrow> pstate \<Rightarrow> outcome" where
  "print_files_over fs [] st = (None, st)"
| "print_files_over fs ((root, dirs, files) # rest) st =
     (case print_files_in fs root files st of
        (Some e, st') \<Rightarrow> (Some e, st')
      | (None, st') \<Rightarrow> print_files_over fs rest st')"

definition print_files :: "node \<Rightarrow> string \<Rightarrow> pstate \<Rightarrow> outcome" where
  "print_files fs dir st = print_files_over fs (os_walk fs dir) st"

text \<open>
  \<^verbatim>\<open>
  if __name__ == "__main__":
      print_tree("src")
      print_files("src")
  \<close>
  An exception that reaches the top level ends the process with status 1.
\<close>

definition main :: "tree_renderer \<Rightarrow> node \<Rightarrow> outcome" where
  "main DisplayTree fs =
     (case print_tree DisplayTree fs ''src'' init of
        (Some e, st) \<Rightarrow> (Some e, st)
      | (None, st) \<Rightarrow> print_files fs ''src'' st)"

definition exit_status :: "outcome \<Rightarrow> nat" where
  "exit_status r = (case fst r of None \<Rightarrow> 0 | Some e \<Rightarrow> 1)"

section \<open>Files, blocks and handles\<close>

text \<open>
  What the script finds below a directory: every name that the walk lists among the
  files, with the path the script prints for it and what opening that path gives, in the
  order of the walk: the names of the directory itself, then those of the subdirectories
  the walk enters, in scan order. A link to a file stands for that file, a link that
  leads nowhere for nothing. Directories are never listed among the files, and \<open>seen\<close>
  is not used for them.
\<close>

fun seen :: "node \<Rightarrow> file_data" where
  "seen (File d) = d"
| "seen (Special d) = d"
| "seen (Link (Some n)) = seen n"
| "seen (Link None) = Missing"
| "seen (Dir es) = Missing"
| "seen (Locked es) = Missing"

fun direct_files :: "string \<Rightarrow> (string \<times> node) list \<Rightarrow> (string \<times> file_data) list" where
  "direct_files t [] = []"
| "direct_files t ((name, n) # es) =
     (if is_dir n then [] else [(join t name, seen n)]) @ direct_files t es"

fun files_under :: "string \<Rightarrow> node \<Rightarrow> (string \<times> file_data) list"
  and files_under_dirs :: "string \<Rightarrow> (string \<times> node) list \<Rightarrow> (string \<times> file_data) list"
where
  "files_under t (Dir es) = direct_files t es @ files_under_dirs t es"
| "files_under t (Locked es) = []"
| "files_under t (File d) = []"
| "files_under t (Special d) = []"
| "files_under t (Link l) = []"
| "files_under_dirs t [] = []"
| "files_under_dirs t ((name, n) # es) =
     (if is_dir n \<and> \<not> is_link n then files_under (join t name) n else [])
     @ files_under_dirs t es"

text \<open>
  The number of names in a tree, at any depth, that are not directories: what a walk
  that could enter every directory would list among the files.
\<close>

fun count_files :: "node \<Rightarrow> nat" and count_entries :: "(string \<times> node) list \<Rightarrow> nat" where
  "count_files (File d) = 1"
| "count_files (Special d) = 1"
| "count_files (Link l) = (if is_dir (Link l) then 0 else 1)"
| "count_files (Dir es) = count_entries es"
| "count_files (Locked es) = count_entries es"
| "count_entries [] = 0"
| "count_entries ((name, n) # es) = count_files n + count_entries es"

text \<open>The number of regular files in a tree, at any depth.\<close>

fun count_regular :: "node \<Rightarrow> nat" and count_regular_entries :: "(string \<times> node) list \<Rightarrow> nat" where
  "count_regular (File d) = 1"
| "count_regular (Special d) = 0"
| "count_regular (Link l) = 0"
| "count_regular (Dir es) = count_regular_entries es"
| "count_regular (Locked es) = count_regular_entries es"
| "count_regular_entries [] = 0"
| "count_regular_entries ((name, n) # es) = count_regular n + count_regular_entries es"

text \<open>
  A plain tree: regular files in directories that can be listed, and nothing else.
\<close>

fun plain :: "node \<Rightarrow> bool" and plain_entries :: "(string \<times> node) list \<Rightarrow> bool" where
  "plain (File d) = True"
| "plain (Special d) = False"
| "plain (Link l) = False"
| "plain (Dir es) = plain_entries es"
| "plain (Locked es) = False"
| "plain_entries [] = True"
| "plain_entries ((name, n) # es) = (plain n \<and> plain_entries es)"

text \<open>
  The lines of one file's part of the output: the header, the opening fence, and, around
  a body, the whole block with its closing fence and blank line.
\<close>

definition header :: "string \<Rightarrow> string" where
  "header path = path @ '':'' @ [LF]"

definition opening_fence :: string where
  "opening_fence = ''```rust'' @ [LF]"

definition closing_fence :: string where
  "closing_fence = ''```'' @ [LF]"

definition file_block :: "string \<Rightarrow> string \<Rightarrow> string" where
  "file_block path body = header path @ opening_fence @ body @ closing_fence @ [LF]"

fun is_text :: "file_data \<Rightarrow> bool" where
  "is_text (Text s) = True"
| "is_text Binary = False"
| "is_text Denied = False"
| "is_text Missing = False"

text \<open>What \<^verbatim>\<open>read\<close> returns for a text file, and the exception a file raises otherwise.\<close>

fun text_of :: "file_data \<Rightarrow> string" where
  "text_of (Text s) = universal_newlines s"
| "text_of Binary = []"
| "text_of Denied = []"
| "text_of Missing = []"

fun error_of :: "file_data \<Rightarrow> py_error option" where
  "error_of (Text s) = None"
| "error_of Binary = Some UnicodeDecodeError"
| "error_of Denied = Some PermissionError"
| "error_of Missing = Some FileNotFoundError"

definition block_of :: "string \<times> file_data \<Rightarrow> string" where
  "block_of e = file_block (fst e) (text_of (snd e) @ [LF])"

text \<open>
  The block of \<^verbatim>\<open>print_tree\<close> around the rendering \<open>txt\<close>: the header line, the
  opening fence, the rendering, the closing fence, and the two line ends of
  \<^verbatim>\<open>print("\n")\<close>.
\<close>

definition tree_head :: string where
  "tree_head = ''Directory tree:'' @ [LF] @ ''```'' @ [LF]"

definition tree_block :: "string \<Rightarrow> string" where
  "tree_block txt = tree_head @ txt @ ''```'' @ [LF] @ [LF, LF]"

text \<open>The handle events of a file: none when it cannot be opened.\<close>

fun events_of :: "string \<times> file_data \<Rightarrow> fd_event list" where
  "events_of (p, Denied) = []"
| "events_of (p, Missing) = []"
| "events_of (p, d) = [Opened p, Closed p]"

text \<open>
  The handles open after a sequence of events, and the largest number of handles open
  at any moment of it, starting from the handles \<open>hs\<close>.
\<close>

fun handles_after :: "string list \<Rightarrow> fd_event list \<Rightarrow> string list" where
  "handles_after hs [] = hs"
| "handles_after hs (Opened p # evs) = handles_after (p # hs) evs"
| "handles_after hs (Closed p # evs) = handles_after (remove1 p hs) evs"

fun peak_handles :: "string list \<Rightarrow> fd_event list \<Rightarrow> nat" where
  "peak_handles hs [] = length hs"
| "peak_handles hs (Opened p # evs) = max (length hs) (peak_handles (p # hs) evs)"
| "peak_handles hs (Closed p # evs) = max (length hs) (peak_handles (remove1 p hs) evs)"

text \<open>
  Writing \<open>s\<close> to standard output and appending \<open>evs\<close> to the handle events.
\<close>

definition emit :: "string \<Rightarrow> fd_event list \<Rightarrow> pstate \<Rightarrow> pstate" where
  "emit s evs st = \<lparr>stdout = stdout st @ s, fd_log = fd_log st @ evs\<rparr>"

text \<open>
  The loops of \<^verbatim>\<open>print_files\<close> run on the list of files with their data instead of the
  walk and the file system: the reference the script is compared with.
\<close>

fun dump_files :: "(string \<times> file_data) list \<Rightarrow> pstate \<Rightarrow> outcome" where
  "dump_files [] st = (None, st)"
| "dump_files ((p, d) # rest) st =
     (case d of
        Denied \<Rightarrow> (Some PermissionError, emit (header p @ opening_fence) [] st)
      | Missing \<Rightarrow> (Some FileNotFoundError, emit (header p @ opening_fence) [] st)
      | Binary \<Rightarrow> (Some UnicodeDecodeError, emit (header p @ opening_fence) [Opened p, Closed p] st)
      | Text s \<Rightarrow>
          dump_files rest
            (emit (file_block p (universal_newlines s @ [LF])) [Opened p, Closed p] st))"

text \<open>
  Modelled from the spec: \<^verbatim>\<open>DisplayTree\<close> belongs to the package \<^verbatim>\<open>directory_tree\<close>,
  which is not part of the repository. The spec says that it renders a listing of the
  directories and files under the root and that \<^verbatim>\<open>print_tree\<close> propagates the error it
  raises if the root does not exist. The layout of the listing is left open: \<open>layout\<close>
  gives the text printed for a directory.
\<close>

definition DisplayTree_spec :: "(node \<Rightarrow> string) \<Rightarrow> tree_renderer" where
  "DisplayTree_spec layout fs dir =
     (case resolve fs dir of
        None \<Rightarrow> ([], Some FileNotFoundError)
      | Some (File d) \<Rightarrow> ([], Some NotADirectoryError)
      | Some (Special d) \<Rightarrow> ([], Some NotADirectoryError)
      | Some (Link l) \<Rightarrow> ([], Some FileNotFoundError)
      | Some (Locked es) \<Rightarrow> ([], Some PermissionError)
      | Some (Dir es) \<Rightarrow> (layout (Dir es), None))"

subsection \<open>The default text encoding\<close>






subsection \<open>Example file systems\<close>

text \<open>
  The scenario of the spec: \<^verbatim>\<open>src\<close> holds \<^verbatim>\<open>a.txt\<close> with \<^verbatim>\<open>hello\<close> and
  \<^verbatim>\<open>sub/b.txt\<close> with \<^verbatim>\<open>world\<close>.
\<close>

definition fs_scenario :: node where
  "fs_scenario =
     Dir [(''src'', Dir [(''a.txt'', File (Text ''hello'')),
                         (''sub'', Dir [(''b.txt'', File (Text ''world''))])]),
          (''README.md'', File (Text ''overview''))]"

definition fs_one_file :: node where
  "fs_one_file = Dir [(''src'', Dir [(''a.txt'', File (Text ''hello''))])]"

definition fs_binary_first :: node where
  "fs_binary_first =
     Dir [(''src'', Dir [(''logo.png'', File Binary), (''b.txt'', File (Text ''world''))])]"

definition fs_binary_last :: node where
  "fs_binary_last =
     Dir [(''src'', Dir [(''a.txt'', File (Text ''hello'')), (''logo.png'', File Binary)])]"

definition fs_no_files :: node where
  "fs_no_files = Dir [(''src'', Dir [(''sub'', Dir [])])]"

definition fs_no_src :: node where
  "fs_no_src = Dir [(''README.md'', File (Text ''overview''))]"

text \<open>
  A subdirectory that can be searched but not listed, and a link to a file of the same
  directory.
\<close>

definition fs_locked_dir :: node where
  "fs_locked_dir =
     Dir [(''src'', Dir [(''a.txt'', File (Text ''hello'')),
                         (''private'', Locked [(''b.txt'', File (Text ''world''))])])]"

definition fs_linked_file :: node where
  "fs_linked_file =
     Dir [(''src'', Dir [(''a.txt'', File (Text ''hello'')),
                         (''again.txt'', Link (Some (File (Text ''hello''))))])]"



text \<open>
  Two renderers for the examples: one that prints the name of the root and never raises,
  and the renderer of the spec with a layout that lists the entries of the root.
\<close>

definition name_only :: tree_renderer where
  "name_only fs dir = (dir @ ''/'' @ [LF], None)"

fun names_layout :: "node \<Rightarrow> string" where
  "names_layout (Dir es) = concat (map (\<lambda>e. fst e @ [LF]) es)"
| "names_layout n = []"

section \<open>Paths\<close>

lemma split_path_nonempty: "split_path p \<noteq> []"
  by (induction p) (auto split: list.splits)

lemma split_path_sep: "split_path (a @ CHR ''/'' # b) = split_path a @ split_path b"
  by (induction a) (auto split: list.splits simp: split_path_nonempty)

lemma split_path_plain: "CHR ''/'' \<notin> set name \<Longrightarrow> split_path name = [name]"
  by (induction name) auto

lemma join_wf_name:
  "wf_name name \<Longrightarrow>
     join t name = (if t = [] \<or> last t = CHR ''/'' then t @ name else t @ CHR ''/'' # name)"
proof -
  assume w: "wf_name name"
  then have "hd name \<noteq> CHR ''/''"
    by (cases name) (auto simp: wf_name_def)
  with w show ?thesis
    by (simp add: join_def wf_name_def)
qed

lemma components_join:
  assumes "wf_name name"
  shows "components (join t name) = components t @ [name]"
proof (cases "t = [] \<or> last t \<noteq> CHR ''/''")
  case True
  show ?thesis
  proof (cases "t = []")
    case True
    then show ?thesis
      using assms by (simp add: join_wf_name components_def split_path_plain wf_name_def)
  next
    case False
    with True have "join t name = t @ CHR ''/'' # name"
      using assms by (simp add: join_wf_name)
    then show ?thesis
      using assms by (simp add: components_def split_path_sep split_path_plain wf_name_def)
  qed
next
  case False
  then have t: "t = butlast t @ ''/''"
    by (metis append_butlast_last_id)
  have "join t name = butlast t @ CHR ''/'' # name"
    using assms False t by (simp add: join_wf_name)
  moreover have "split_path t = split_path (butlast t) @ [[]]"
    using split_path_sep [of "butlast t" "[]"] t by simp
  ultimately show ?thesis
    using assms by (simp add: components_def split_path_sep split_path_plain wf_name_def)
qed

lemma join_nonempty: "wf_name name \<Longrightarrow> join t name \<noteq> []"
  by (auto simp: join_wf_name) (auto simp: wf_name_def)

lemma target_not_link: "target n = Some m \<Longrightarrow> \<not> is_link m"
  by (induction n rule: target.induct) auto

lemma target_real: "\<not> is_link n \<Longrightarrow> target n = Some n"
  by (cases n) simp_all

lemma lookup_path_snoc:
  "lookup_path n (ps @ [name]) =
     (case lookup_path n ps of None \<Rightarrow> None | Some m \<Rightarrow> entry m name)"
  by (induction n ps rule: lookup_path.induct) (auto split: option.splits)

lemma resolve_join:
  assumes "resolve fs t = Some (Dir es)" and "wf_name name"
  shows "resolve fs (join t name) = (case map_of es name of None \<Rightarrow> None | Some n \<Rightarrow> target n)"
proof -
  from assms(1) obtain m where l: "lookup_path fs (components t) = Some m"
    and m: "target m = Some (Dir es)"
    by (auto simp: resolve_def split: if_splits option.splits)
  have "entry m name = map_of es name"
    by (simp add: entry_def m)
  then show ?thesis
    using l by (simp add: resolve_def join_nonempty [OF assms(2)] components_join [OF assms(2)] lookup_path_snoc)
qed

section \<open>The loops of \<^verbatim>\<open>print_files\<close> against the list of files\<close>

lemma wf_entries_mem: "wf_entries es \<Longrightarrow> (name, n) \<in> set es \<Longrightarrow> wf_name name \<and> wf_node n"
  by (induction es) auto

lemma wf_target: "wf_node n \<Longrightarrow> target n = Some m \<Longrightarrow> wf_node m"
  by (induction n rule: target.induct) auto

lemma wf_entry:
  assumes "wf_node n" and "entry n c = Some m"
  shows "wf_node m"
proof (cases "target n")
  case None
  with assms(2) show ?thesis by (simp add: entry_def)
next
  case (Some d)
  then have wf: "wf_node d"
    using assms(1) wf_target by blast
  show ?thesis
  proof (cases d)
    case (Dir es)
    then have "(c, m) \<in> set es"
      using assms(2) Some by (simp add: entry_def map_of_SomeD)
    then show ?thesis
      using wf Dir wf_entries_mem by auto
  next
    case (Locked es)
    then have "(c, m) \<in> set es"
      using assms(2) Some by (simp add: entry_def map_of_SomeD)
    then show ?thesis
      using wf Locked wf_entries_mem by auto
  qed (use assms(2) Some in \<open>simp_all add: entry_def\<close>)
qed

lemma wf_lookup_path: "wf_node n \<Longrightarrow> lookup_path n ps = Some m \<Longrightarrow> wf_node m"
proof (induction n ps rule: lookup_path.induct)
  case (1 n)
  then show ?case by simp
next
  case (2 n c cs)
  from "2.prems"(2) obtain k where k: "entry n c = Some k" "lookup_path k cs = Some m"
    by (auto split: option.splits)
  have "wf_node k"
    using "2.prems"(1) k(1) by (rule wf_entry)
  then show ?case
    using "2.IH" k by simp
qed

lemma wf_resolve: "wf_node fs \<Longrightarrow> resolve fs p = Some n \<Longrightarrow> wf_node n"
  by (auto simp: resolve_def split: if_splits option.splits dest: wf_lookup_path wf_target)

lemma print_emit: "print s st = emit (s @ [LF]) [] st"
  by (simp add: print_def emit_def)

lemma log_emit: "st\<lparr>fd_log := fd_log st @ evs\<rparr> = emit [] evs st"
  by (simp add: emit_def)

lemma emit_emit: "emit s evs (emit s' evs' st) = emit (s' @ s) (evs' @ evs) st"
  by (simp add: emit_def)

lemma emit_nothing: "emit [] [] st = st"
  by (simp add: emit_def)

text \<open>What the \<^verbatim>\<open>with\<close> block does with a name listed among the files.\<close>

lemma open_r_entry:
  "resolve fs path = target n \<Longrightarrow> \<not> is_dir n \<Longrightarrow> open_r fs path = open_data (seen n)"
  by (induction n rule: target.induct) (simp_all add: open_r_def)

lemma with_open_print_data:
  "open_r fs path = open_data d \<Longrightarrow>
     with_open_print fs path st =
       (case d of
          Denied \<Rightarrow> (Some PermissionError, st)
        | Missing \<Rightarrow> (Some FileNotFoundError, st)
        | Binary \<Rightarrow> (Some UnicodeDecodeError, emit [] [Opened path, Closed path] st)
        | Text s \<Rightarrow> (None, emit (universal_newlines s @ [LF]) [Opened path, Closed path] st))"
  by (cases d) (simp_all add: with_open_print_def print_emit log_emit emit_emit)

lemma filenames_simps:
  "filenames [] = []"
  "filenames ((name, n) # es) = (if is_dir n then filenames es else name # filenames es)"
  by (simp_all add: filenames_def)


lemma print_files_in_direct:
  assumes root: "resolve fs root = Some (Dir es)"
  shows "\<forall>e \<in> set es'. map_of es (fst e) = Some (snd e) \<and> wf_name (fst e) \<Longrightarrow>
         print_files_in fs root (filenames es') st = dump_files (direct_files root es') st"
proof (induction es' arbitrary: st)
  case Nil
  then show ?case by (simp add: filenames_simps)
next
  case (Cons e es')
  obtain name n where e: "e = (name, n)" by (cases e)
  have here: "map_of es name = Some n" "wf_name name"
    using Cons.prems e by simp_all
  have rest: "\<And>st. print_files_in fs root (filenames es') st = dump_files (direct_files root es') st"
    using Cons.IH Cons.prems by simp
  show ?case
  proof (cases "is_dir n")
    case True
    then show ?thesis by (simp add: e filenames_simps rest)
  next
    case False
    have "resolve fs (join root name) = target n"
      using resolve_join [OF root here(2)] here(1) by simp
    then have o: "open_r fs (join root name) = open_data (seen n)"
      using False by (rule open_r_entry)
    show ?thesis
      by (cases "seen n")
        (simp_all add: e False filenames_simps with_open_print_data [OF o] rest
          print_emit emit_emit file_block_def header_def opening_fence_def closing_fence_def)
  qed
qed

lemma print_files_over_append:
  "print_files_over fs (a @ b) st =
     (case print_files_over fs a st of
        (Some e, st') \<Rightarrow> (Some e, st')
      | (None, st') \<Rightarrow> print_files_over fs b st')"
  by (induction fs a st rule: print_files_over.induct) (auto split: prod.splits option.splits)

lemma dump_files_append:
  "dump_files (a @ b) st =
     (case dump_files a st of
        (Some e, st') \<Rightarrow> (Some e, st')
      | (None, st') \<Rightarrow> dump_files b st')"
  by (induction a st rule: dump_files.induct) (auto split: file_data.splits simp: Let_def)

lemma print_files_over_walk:
  "resolve fs t = Some n \<Longrightarrow> wf_node n \<Longrightarrow>
     print_files_over fs (os_walk_node t n) st = dump_files (files_under t n) st"
  "resolve fs t = Some (Dir es) \<Longrightarrow> wf_entries es' \<Longrightarrow>
     (\<And>name n. (name, n) \<in> set es' \<Longrightarrow> map_of es name = Some n) \<Longrightarrow>
     print_files_over fs (os_walk_dirs t es') st = dump_files (files_under_dirs t es') st"
proof (induction t n and t es' arbitrary: st and st es rule: os_walk_node_os_walk_dirs.induct)
  case (1 t es)
  have wf: "distinct (map fst es)" "wf_entries es"
    using "1.prems" by simp_all
  have "\<forall>e \<in> set es. map_of es (fst e) = Some (snd e) \<and> wf_name (fst e)"
    using wf(1) wf_entries_mem [OF wf(2)] by auto
  then have inner: "print_files_in fs t (filenames es) st = dump_files (direct_files t es) st" for st
    by (rule print_files_in_direct [OF "1.prems"(1)])
  have outer: "print_files_over fs (os_walk_dirs t es) st = dump_files (files_under_dirs t es) st" for st
    using "1.IH" [OF "1.prems"(1) wf(2)] wf(1) by simp
  show ?case
    by (simp add: inner outer dump_files_append split: prod.splits option.splits)
next
  case (7 t name n es')
  have wf: "wf_name name" "wf_node n" "wf_entries es'"
    using "7.prems"(2) by simp_all
  have rest: "print_files_over fs (os_walk_dirs t es') st = dump_files (files_under_dirs t es') st" for st
    using "7.IH"(2) [OF "7.prems"(1) wf(3)] "7.prems"(3) by simp
  show ?case
  proof (cases "is_dir n \<and> \<not> is_link n")
    case False
    then show ?thesis by (auto simp: rest)
  next
    case True
    then have "target n = Some n"
      by (simp add: target_real)
    then have here: "resolve fs (join t name) = Some n"
      using resolve_join [OF "7.prems"(1) wf(1)] "7.prems"(3) [of name n] by simp
    have sub: "print_files_over fs (os_walk_node (join t name) n) st = dump_files (files_under (join t name) n) st" for st
      by (rule "7.IH"(1) [OF True here wf(2)])
    show ?thesis
      by (simp add: True print_files_over_append dump_files_append sub rest split: prod.splits option.splits)
  qed
qed simp_all

lemma print_files_found:
  "wf_node fs \<Longrightarrow> resolve fs dir = Some n \<Longrightarrow>
     print_files fs dir st = dump_files (files_under dir n) st"
  by (simp add: print_files_def os_walk_def print_files_over_walk(1) wf_resolve)

lemma print_files_missing: "resolve fs dir = None \<Longrightarrow> print_files fs dir st = (None, st)"
  by (simp add: print_files_def os_walk_def)

lemma events_of_text: "is_text d \<Longrightarrow> events_of (p, d) = [Opened p, Closed p]"
  by (cases d) simp_all

lemma dump_files_texts:
  "\<forall>e \<in> set pre. is_text (snd e) \<Longrightarrow>
     dump_files (pre @ after) st =
       dump_files after (emit (concat (map block_of pre)) (concat (map events_of pre)) st)"
proof (induction pre arbitrary: st)
  case Nil
  then show ?case by (simp add: emit_nothing)
next
  case (Cons e pre)
  obtain p d where e: "e = (p, d)" by (cases e)
  with Cons.prems obtain s where d: "d = Text s" by (cases d) auto
  show ?case
    using Cons.IH Cons.prems by (simp add: e d emit_emit block_of_def)
qed

lemma dump_files_all_text:
  "\<forall>e \<in> set fl. is_text (snd e) \<Longrightarrow>
     dump_files fl st = (None, emit (concat (map block_of fl)) (concat (map events_of fl)) st)"
  using dump_files_texts [of fl "[]" st] by simp

lemma dump_files_emits: "\<exists>out evs. snd (dump_files fl st) = emit out evs st"
proof (induction fl arbitrary: st)
  case Nil
  show ?case using emit_nothing [of st] by (metis dump_files.simps(1) snd_conv)
next
  case (Cons e fl)
  obtain p d where e: "e = (p, d)" by (cases e)
  show ?case
  proof (cases d)
    case (Text s)
    obtain out evs where
      "snd (dump_files fl (emit (file_block p (universal_newlines s @ [LF])) [Opened p, Closed p] st)) =
         emit out evs (emit (file_block p (universal_newlines s @ [LF])) [Opened p, Closed p] st)"
      using Cons.IH by blast
    then show ?thesis
      unfolding e Text by (simp add: emit_emit) blast
  next
    case Binary
    then show ?thesis unfolding e by simp blast
  next
    case Denied
    then show ?thesis unfolding e by simp blast
  next
    case Missing
    then show ?thesis unfolding e by simp blast
  qed
qed

lemma dump_files_first_failure:
  "\<forall>e \<in> set pre. is_text (snd e) \<Longrightarrow> \<not> is_text d \<Longrightarrow>
     dump_files (pre @ (p, d) # post) st =
       (error_of d,
        emit (concat (map block_of pre) @ header p @ opening_fence)
             (concat (map events_of pre) @ events_of (p, d)) st)"
  by (cases d) (simp_all add: dump_files_texts emit_emit)

lemma dump_files_reaches:
  assumes "\<forall>e \<in> set pre. is_text (snd e)"
  shows "\<exists>rest. stdout (snd (dump_files (pre @ (p, d) # post) st)) =
           stdout st @ concat (map block_of pre) @ header p @ opening_fence @ rest"
proof (cases d)
  case (Text s)
  obtain out evs where
    "snd (dump_files post (emit (file_block p (universal_newlines s @ [LF])) [Opened p, Closed p] (emit (concat (map block_of pre)) (concat (map events_of pre)) st))) =
       emit out evs (emit (file_block p (universal_newlines s @ [LF])) [Opened p, Closed p] (emit (concat (map block_of pre)) (concat (map events_of pre)) st))"
    using dump_files_emits by blast
  then show ?thesis
    by (simp add: dump_files_texts [OF assms] Text emit_def file_block_def)
next
  case Binary
  then show ?thesis
    by (simp add: dump_files_texts [OF assms] emit_def)
next
  case Denied
  then show ?thesis
    by (simp add: dump_files_texts [OF assms] emit_def)
next
  case Missing
  then show ?thesis
    by (simp add: dump_files_texts [OF assms] emit_def)
qed

lemma dump_files_reaches_text:
  assumes "\<forall>e \<in> set pre. is_text (snd e)"
  shows "\<exists>rest. stdout (snd (dump_files (pre @ (p, Text s) # post) st)) =
           stdout st @ concat (map block_of pre) @ header p @ opening_fence @
             (universal_newlines s @ [LF]) @ closing_fence @ rest"
proof -
  obtain out evs where
    "snd (dump_files post (emit (file_block p (universal_newlines s @ [LF])) [Opened p, Closed p] (emit (concat (map block_of pre)) (concat (map events_of pre)) st))) =
       emit out evs (emit (file_block p (universal_newlines s @ [LF])) [Opened p, Closed p] (emit (concat (map block_of pre)) (concat (map events_of pre)) st))"
    using dump_files_emits by blast
  then show ?thesis
    by (simp add: dump_files_texts [OF assms] emit_def file_block_def)
qed

lemma universal_newlines_no_CR: "CR \<notin> set s \<Longrightarrow> universal_newlines s = s"
  by (induction s rule: universal_newlines.induct) auto

lemma print_tree_eq:
  "print_tree DisplayTree fs dir st =
     (snd (DisplayTree fs dir),
      emit (tree_head @ fst (DisplayTree fs dir) @
            (case snd (DisplayTree fs dir) of None \<Rightarrow> ''```'' @ [LF] @ [LF, LF] | Some e \<Rightarrow> [])) [] st)"
  by (cases "DisplayTree fs dir")
    (auto simp: print_tree_def print_emit emit_emit tree_head_def emit_def split: option.splits)

section \<open>The files of a tree\<close>

lemma plain_entries_mem: "plain_entries es \<Longrightarrow> (name, n) \<in> set es \<Longrightarrow> plain n"
  by (induction es) auto

lemma plain_cases: "plain n \<Longrightarrow> (\<exists>d. n = File d) \<or> (\<exists>es. n = Dir es)"
  by (cases n) simp_all

lemma length_files_under:
  "plain n \<Longrightarrow>
     length (files_under t n) = (case n of Dir es \<Rightarrow> count_regular_entries es | _ \<Rightarrow> 0)"
  "plain_entries es \<Longrightarrow>
     length (direct_files t es) + length (files_under_dirs t es) = count_regular_entries es"
proof (induction t n and t es rule: files_under_files_under_dirs.induct)
  case (7 t name n es)
  then show ?case
    using plain_cases [of n] by auto
qed simp_all

lemma direct_files_mem:
  "(p, d) \<in> set (direct_files t es) \<Longrightarrow>
     \<exists>name n. (name, n) \<in> set es \<and> \<not> is_dir n \<and> d = seen n \<and> p = join t name"
proof (induction es)
  case Nil
  then show ?case by simp
next
  case (Cons e es)
  obtain a b where e: "e = (a, b)" by (cases e)
  from Cons.prems e consider "\<not> is_dir b" "p = join t a" "d = seen b"
    | "(p, d) \<in> set (direct_files t es)"
    by (auto split: if_splits)
  then show ?case
  proof cases
    case 1
    then have "(a, b) \<in> set (e # es) \<and> \<not> is_dir b \<and> d = seen b \<and> p = join t a"
      using e by simp
    then show ?thesis by blast
  next
    case 2
    then obtain name n where "(name, n) \<in> set es" "\<not> is_dir n" "d = seen n" "p = join t name"
      using Cons.IH by blast
    then have "(name, n) \<in> set (e # es) \<and> \<not> is_dir n \<and> d = seen n \<and> p = join t name"
      by simp
    then show ?thesis by blast
  qed
qed

text \<open>In a plain tree every path of the list leads to the regular file it is listed with.\<close>

lemma files_under_resolve:
  "(p, d) \<in> set (files_under t n) \<Longrightarrow> resolve fs t = Some n \<Longrightarrow> wf_node n \<Longrightarrow> plain n \<Longrightarrow>
     resolve fs p = Some (File d)"
  "(p, d) \<in> set (files_under_dirs t es') \<Longrightarrow> resolve fs t = Some (Dir es) \<Longrightarrow> wf_entries es' \<Longrightarrow>
     plain_entries es' \<Longrightarrow> \<forall>e \<in> set es'. map_of es (fst e) = Some (snd e) \<Longrightarrow>
     resolve fs p = Some (File d)"
proof (induction t n and t es' arbitrary: and es rule: files_under_files_under_dirs.induct)
  case (1 t es)
  have wf: "distinct (map fst es)" "wf_entries es" "plain_entries es"
    using "1.prems" by simp_all
  have all: "\<forall>e \<in> set es. map_of es (fst e) = Some (snd e)"
    using wf(1) by auto
  from "1.prems"(1) consider "(p, d) \<in> set (direct_files t es)" | "(p, d) \<in> set (files_under_dirs t es)"
    by auto
  then show ?case
  proof cases
    case 1
    then obtain name n where name: "(name, n) \<in> set es" "\<not> is_dir n" "d = seen n" "p = join t name"
      using direct_files_mem by blast
    have "plain n"
      using wf(3) name(1) by (rule plain_entries_mem)
    then have n: "n = File d"
      using plain_cases [of n] name(2,3) by auto
    show ?thesis
      using resolve_join [OF "1.prems"(2), of name] wf(1) wf_entries_mem [OF wf(2) name(1)] name(1,4) n
      by simp
  next
    case 2
    then show ?thesis
      by (rule "1.IH" [OF _ "1.prems"(2) wf(2) wf(3) all])
  qed
next
  case (7 t name n es')
  have wf: "wf_name name" "wf_node n" "wf_entries es'" "plain n" "plain_entries es'"
    using "7.prems"(3,4) by simp_all
  from "7.prems"(1) consider
      "is_dir n \<and> \<not> is_link n" "(p, d) \<in> set (files_under (join t name) n)"
    | "(p, d) \<in> set (files_under_dirs t es')"
    by (auto split: if_splits)
  then show ?case
  proof cases
    case 1
    then have "target n = Some n"
      by (simp add: target_real)
    then have here: "resolve fs (join t name) = Some n"
      using resolve_join [OF "7.prems"(2) wf(1)] "7.prems"(5) by simp
    show ?thesis
      by (rule "7.IH"(1) [OF 1(1) 1(2) here wf(2) wf(4)])
  next
    case 2
    then show ?thesis
      using "7.IH"(2) [OF _ "7.prems"(2) wf(3) wf(5)] "7.prems"(5) by simp
  qed
qed simp_all

text \<open>The components of a visited path extend those of the directory walked.\<close>

lemma files_under_components:
  "(p, d) \<in> set (files_under t n) \<Longrightarrow> wf_node n \<Longrightarrow>
     \<exists>q. q \<noteq> [] \<and> components p = components t @ q"
  "(p, d) \<in> set (files_under_dirs t es) \<Longrightarrow> wf_entries es \<Longrightarrow>
     \<exists>name q. name \<in> fst ` set es \<and> q \<noteq> [] \<and> components p = components t @ name # q"
proof (induction t n and t es rule: files_under_files_under_dirs.induct)
  case (1 t es)
  from "1.prems"(1) consider "(p, d) \<in> set (direct_files t es)" | "(p, d) \<in> set (files_under_dirs t es)"
    by auto
  then show ?case
  proof cases
    case 1
    then obtain name n where name: "(name, n) \<in> set es" "p = join t name"
      using direct_files_mem by blast
    then have "wf_name name"
      using wf_entries_mem "1.prems"(2) by auto
    then have "components p = components t @ [name]"
      by (simp add: name(2) components_join)
    then show ?thesis by blast
  next
    case 2
    then obtain name q where "q \<noteq> []" "components p = components t @ name # q"
      using "1.IH" "1.prems"(2) by auto
    then show ?thesis by blast
  qed
next
  case (7 t name n es)
  have wf: "wf_name name" "wf_node n" "wf_entries es"
    using "7.prems"(2) by simp_all
  from "7.prems"(1) consider
      "is_dir n \<and> \<not> is_link n" "(p, d) \<in> set (files_under (join t name) n)"
    | "(p, d) \<in> set (files_under_dirs t es)"
    by (auto split: if_splits)
  then show ?case
  proof cases
    case 1
    then obtain q where "q \<noteq> []" "components p = components (join t name) @ q"
      using "7.IH"(1) wf(2) by blast
    then have "name \<in> fst ` set ((name, n) # es) \<and> q \<noteq> [] \<and> components p = components t @ name # q"
      by (simp add: components_join [OF wf(1)])
    then show ?thesis by blast
  next
    case 2
    then obtain name' q where "name' \<in> fst ` set es" "q \<noteq> []" "components p = components t @ name' # q"
      using "7.IH"(2) wf(3) by blast
    then have "name' \<in> fst ` set ((name, n) # es) \<and> q \<noteq> [] \<and> components p = components t @ name' # q"
      by simp
    then show ?thesis by blast
  qed
qed simp_all

lemma direct_files_distinct:
  "wf_entries es \<Longrightarrow> distinct (map fst es) \<Longrightarrow> distinct (map fst (direct_files t es))"
proof (induction es)
  case Nil
  show ?case by simp
next
  case (Cons e es)
  obtain name n where e: "e = (name, n)" by (cases e)
  have "join t name \<noteq> join t name'" if "(name', n') \<in> set es" for name' n'
  proof
    assume eq: "join t name = join t name'"
    have "wf_name name" "wf_name name'"
      using Cons.prems(1) that wf_entries_mem e by auto
    then have "components t @ [name] = components t @ [name']"
      using eq components_join by metis
    then show False
      using Cons.prems(2) that e by force
  qed
  then have "join t name \<notin> fst ` set (direct_files t es)"
    using direct_files_mem by fastforce
  then show ?case
    using Cons e by simp
qed

lemma files_under_distinct:
  "wf_node n \<Longrightarrow> distinct (map fst (files_under t n))"
  "wf_entries es \<Longrightarrow> distinct (map fst es) \<Longrightarrow> distinct (map fst (files_under_dirs t es))"
proof (induction t n and t es rule: files_under_files_under_dirs.induct)
  case (1 t es)
  have wf: "distinct (map fst es)" "wf_entries es"
    using "1.prems" by simp_all
  have "p \<noteq> p'"
    if h1: "(p, d) \<in> set (direct_files t es)" and h2: "(p', d') \<in> set (files_under_dirs t es)"
    for p d p' d'
  proof
    assume eq: "p = p'"
    obtain name n where name: "(name, n) \<in> set es" "p = join t name"
      using h1 direct_files_mem by blast
    then have "components p = components t @ [name]"
      using components_join wf_entries_mem [OF wf(2)] by blast
    moreover obtain name' q where "q \<noteq> []" "components p' = components t @ name' # q"
      using files_under_components(2) [OF h2 wf(2)] by blast
    ultimately show False
      using eq by simp
  qed
  then have "fst ` set (direct_files t es) \<inter> fst ` set (files_under_dirs t es) = {}"
    by fastforce
  then show ?case
    using "1.IH" wf direct_files_distinct by simp
next
  case (7 t name n es)
  have wf: "wf_name name" "wf_node n" "wf_entries es" "name \<notin> fst ` set es" "distinct (map fst es)"
    using "7.prems" by simp_all
  have rest: "distinct (map fst (files_under_dirs t es))"
    using "7.IH"(2) wf by simp
  show ?case
  proof (cases "is_dir n \<and> \<not> is_link n")
    case False
    then show ?thesis using rest by auto
  next
    case True
    have "p \<noteq> p'"
      if h1: "(p, d) \<in> set (files_under (join t name) n)" and h2: "(p', d') \<in> set (files_under_dirs t es)"
      for p d p' d'
    proof
      assume eq: "p = p'"
      obtain q where "components p = components t @ name # q"
        using files_under_components(1) [OF h1 wf(2)] components_join [OF wf(1)] by auto
      moreover obtain name' q' where "name' \<in> fst ` set es" "components p' = components t @ name' # q'"
        using files_under_components(2) [OF h2 wf(3)] by blast
      ultimately show False
        using eq wf(4) by auto
    qed
    then have "fst ` set (files_under (join t name) n) \<inter> fst ` set (files_under_dirs t es) = {}"
      by fastforce
    moreover have "distinct (map fst (files_under (join t name) n))"
      by (rule "7.IH"(1) [OF True wf(2)])
    ultimately show ?thesis
      using rest True by simp
  qed
qed simp_all

section \<open>What a run adds to the state\<close>

text \<open>
  Each statement adds a fixed text to standard output and a fixed sequence of
  open-and-close pairs to the handle events, whatever the state it starts from.
\<close>

lemma with_open_print_adds:
  "\<exists>r out ps. \<forall>st. with_open_print fs path st =
     (r, emit out (concat (map (\<lambda>p. [Opened p, Closed p]) ps)) st)"
proof (cases "open_r fs path")
  case (Inl e)
  then have "\<forall>st. with_open_print fs path st = (Some e, emit [] (concat (map (\<lambda>p. [Opened p, Closed p]) [])) st)"
    by (simp add: with_open_print_def emit_nothing)
  then show ?thesis by blast
next
  case (Inr f)
  show ?thesis
  proof (cases "read f")
    case (Inl e)
    then have "\<forall>st. with_open_print fs path st = (Some e, emit [] (concat (map (\<lambda>p. [Opened p, Closed p]) [path])) st)"
      using Inr by (simp add: with_open_print_def log_emit emit_emit)
    then show ?thesis by blast
  next
    case (Inr s)
    then have "\<forall>st. with_open_print fs path st = (None, emit (s @ [LF]) (concat (map (\<lambda>p. [Opened p, Closed p]) [path])) st)"
      using \<open>open_r fs path = Inr f\<close> by (simp add: with_open_print_def log_emit print_emit emit_emit)
    then show ?thesis by blast
  qed
qed

lemma print_files_in_adds:
  "\<exists>r out ps. \<forall>st. print_files_in fs root files st =
     (r, emit out (concat (map (\<lambda>p. [Opened p, Closed p]) ps)) st)"
proof (induction files)
  case Nil
  have "\<forall>st. print_files_in fs root [] st = (None, emit [] (concat (map (\<lambda>p. [Opened p, Closed p]) [])) st)"
    by (simp add: emit_nothing)
  then show ?case by blast
next
  case (Cons fname files)
  obtain r out ps where w: "\<And>st. with_open_print fs (join root fname) st =
      (r, emit out (concat (map (\<lambda>p. [Opened p, Closed p]) ps)) st)"
    using with_open_print_adds by blast
  obtain r' out' ps' where rest: "\<And>st. print_files_in fs root files st =
      (r', emit out' (concat (map (\<lambda>p. [Opened p, Closed p]) ps')) st)"
    using Cons.IH by blast
  show ?case
  proof (cases r)
    case None
    have "\<forall>st. print_files_in fs root (fname # files) st =
       (r', emit (join root fname @ '':'' @ [LF] @ ''```rust'' @ [LF] @ out @ ''```'' @ [LF] @ [LF] @ out')
                 (concat (map (\<lambda>p. [Opened p, Closed p]) (ps @ ps'))) st)"
      by (simp add: w rest None print_emit emit_emit)
    then show ?thesis by blast
  next
    case (Some e)
    have "\<forall>st. print_files_in fs root (fname # files) st =
       (Some e, emit (join root fname @ '':'' @ [LF] @ ''```rust'' @ [LF] @ out)
                 (concat (map (\<lambda>p. [Opened p, Closed p]) ps)) st)"
      by (simp add: w Some print_emit emit_emit)
    then show ?thesis by blast
  qed
qed

lemma print_files_over_adds:
  "\<exists>r out ps. \<forall>st. print_files_over fs w st =
     (r, emit out (concat (map (\<lambda>p. [Opened p, Closed p]) ps)) st)"
proof (induction w)
  case Nil
  have "\<forall>st. print_files_over fs [] st = (None, emit [] (concat (map (\<lambda>p. [Opened p, Closed p]) [])) st)"
    by (simp add: emit_nothing)
  then show ?case by blast
next
  case (Cons x w)
  obtain root dirs files where x: "x = (root, dirs, files)" by (cases x)
  obtain r out ps where inner: "\<And>st. print_files_in fs root files st =
      (r, emit out (concat (map (\<lambda>p. [Opened p, Closed p]) ps)) st)"
    using print_files_in_adds by blast
  obtain r' out' ps' where rest: "\<And>st. print_files_over fs w st =
      (r', emit out' (concat (map (\<lambda>p. [Opened p, Closed p]) ps')) st)"
    using Cons.IH by blast
  show ?case
  proof (cases r)
    case None
    have "\<forall>st. print_files_over fs (x # w) st =
       (r', emit (out @ out') (concat (map (\<lambda>p. [Opened p, Closed p]) (ps @ ps'))) st)"
      by (simp add: x inner rest None emit_emit)
    then show ?thesis by blast
  next
    case (Some e)
    have "\<forall>st. print_files_over fs (x # w) st =
       (Some e, emit out (concat (map (\<lambda>p. [Opened p, Closed p]) ps)) st)"
      by (simp add: x inner Some)
    then show ?thesis by blast
  qed
qed

lemma print_files_adds:
  "\<exists>r out ps. \<forall>st. print_files fs dir st =
     (r, emit out (concat (map (\<lambda>p. [Opened p, Closed p]) ps)) st)"
  unfolding print_files_def by (rule print_files_over_adds)


lemma handles_after_pairs:
  "handles_after hs (concat (map (\<lambda>p. [Opened p, Closed p]) ps)) = hs"
  by (induction ps) simp_all

lemma peak_handles_pairs:
  "peak_handles hs (concat (map (\<lambda>p. [Opened p, Closed p]) ps)) \<le> Suc (length hs)"
  by (induction ps) simp_all

lemma count_files_zero_is_dir: "count_files n = 0 \<Longrightarrow> is_dir n"
  by (cases n) (simp_all split: if_splits)

lemma no_files_nothing_printed:
  "count_files n = 0 \<Longrightarrow> print_files_over fs (os_walk_node t n) st = (None, st)"
  "count_entries es = 0 \<Longrightarrow> filenames es = [] \<and> print_files_over fs (os_walk_dirs t es) st = (None, st)"
proof (induction t n and t es arbitrary: st and st rule: os_walk_node_os_walk_dirs.induct)
  case (7 t name n es)
  have zero: "count_files n = 0" "count_entries es = 0"
    using "7.prems" by simp_all
  then have d: "is_dir n"
    by (simp add: count_files_zero_is_dir)
  have names: "filenames ((name, n) # es) = []"
    using "7.IH"(2) [OF zero(2)] d by (simp add: filenames_simps)
  have rest: "print_files_over fs (os_walk_dirs t es) st = (None, st)"
    using "7.IH"(2) [OF zero(2)] by simp
  show ?case
  proof (cases "is_dir n \<and> \<not> is_link n")
    case True
    have "print_files_over fs (os_walk_node (join t name) n) st = (None, st)"
      by (rule "7.IH"(1) [OF True zero(1)])
    then show ?thesis
      using names rest True by (simp add: print_files_over_append)
  next
    case False
    then show ?thesis
      using names rest by auto
  qed
qed (simp_all add: filenames_simps)




section \<open>The examples\<close>

lemma wf_scenario: "wf_node fs_scenario"
  by (simp add: fs_scenario_def wf_name_def)

lemma resolve_scenario:
  "resolve fs_scenario ''src'' =
     Some (Dir [(''a.txt'', File (Text ''hello'')), (''sub'', Dir [(''b.txt'', File (Text ''world''))])])"
  by (simp add: fs_scenario_def resolve_def components_def entry_def)

lemma files_scenario:
  "files_under ''src'' (Dir [(''a.txt'', File (Text ''hello'')), (''sub'', Dir [(''b.txt'', File (Text ''world''))])]) =
     [] @ (''src/a.txt'', Text ''hello'') # [(''src/sub/b.txt'', Text ''world'')]"
  by (simp add: join_def)

lemma files_scenario_second:
  "files_under ''src'' (Dir [(''a.txt'', File (Text ''hello'')), (''sub'', Dir [(''b.txt'', File (Text ''world''))])]) =
     [(''src/a.txt'', Text ''hello'')] @ (''src/sub/b.txt'', Text ''world'') # []"
  by (simp add: join_def)

lemma wf_binary_last: "wf_node fs_binary_last"
  by (simp add: fs_binary_last_def wf_name_def)

lemma resolve_binary_last:
  "resolve fs_binary_last ''src'' =
     Some (Dir [(''a.txt'', File (Text ''hello'')), (''logo.png'', File Binary)])"
  by (simp add: fs_binary_last_def resolve_def components_def entry_def)

lemma files_binary_last:
  "files_under ''src'' (Dir [(''a.txt'', File (Text ''hello'')), (''logo.png'', File Binary)]) =
     [(''src/a.txt'', Text ''hello'')] @ (''src/logo.png'', Binary) # []"
  by (simp add: join_def)

lemma resolve_no_src: "resolve fs_no_src ''src'' = None"
  by (simp add: fs_no_src_def resolve_def components_def entry_def)

lemma block_of_eq:
  "block_of = (\<lambda>(p, d). header p @ opening_fence @ text_of d @ [LF] @ closing_fence @ [LF])"
  by (simp add: fun_eq_iff block_of_def file_block_def)

lemma wf_one_file: "wf_node fs_one_file"
  by (simp add: fs_one_file_def wf_name_def)

lemma resolve_one_file:
  "resolve fs_one_file ''src'' = Some (Dir [(''a.txt'', File (Text ''hello''))])"
  by (simp add: fs_one_file_def resolve_def components_def entry_def)

lemma files_one_file:
  "files_under ''src'' (Dir [(''a.txt'', File (Text ''hello''))]) = [] @ (''src/a.txt'', Text ''hello'') # []"
  by (simp add: join_def)

lemma run_one_file:
  "print_files fs_one_file ''src'' init =
     (None, \<lparr>stdout = file_block ''src/a.txt'' (''hello'' @ [LF]),
             fd_log = [Opened ''src/a.txt'', Closed ''src/a.txt'']\<rparr>)"
  using files_one_file
  by (simp add: print_files_found [OF wf_one_file resolve_one_file] emit_def init_def)

lemma wf_binary_first: "wf_node fs_binary_first"
  by (simp add: fs_binary_first_def wf_name_def)

lemma resolve_binary_first:
  "resolve fs_binary_first ''src'' =
     Some (Dir [(''logo.png'', File Binary), (''b.txt'', File (Text ''world''))])"
  by (simp add: fs_binary_first_def resolve_def components_def entry_def)

lemma files_binary_first:
  "files_under ''src'' (Dir [(''logo.png'', File Binary), (''b.txt'', File (Text ''world''))]) =
     [] @ (''src/logo.png'', Binary) # [(''src/b.txt'', Text ''world'')]"
  by (simp add: join_def)

lemma run_binary_first:
  "print_files fs_binary_first ''src'' init =
     (Some UnicodeDecodeError,
      \<lparr>stdout = header ''src/logo.png'' @ opening_fence,
       fd_log = [Opened ''src/logo.png'', Closed ''src/logo.png'']\<rparr>)"
  using files_binary_first
  by (simp add: print_files_found [OF wf_binary_first resolve_binary_first] emit_def init_def)

lemma resolve_no_files: "resolve fs_no_files ''src'' = Some (Dir [(''sub'', Dir [])])"
  by (simp add: fs_no_files_def resolve_def components_def entry_def)




lemma wf_locked_dir: "wf_node fs_locked_dir"
  by (simp add: fs_locked_dir_def wf_name_def)

lemma resolve_locked_dir:
  "resolve fs_locked_dir ''src'' =
     Some (Dir [(''a.txt'', File (Text ''hello'')),
                (''private'', Locked [(''b.txt'', File (Text ''world''))])])"
  by (simp add: fs_locked_dir_def resolve_def components_def entry_def)

lemma run_locked_dir:
  "print_files fs_locked_dir ''src'' init =
     (None, \<lparr>stdout = file_block ''src/a.txt'' (''hello'' @ [LF]),
             fd_log = [Opened ''src/a.txt'', Closed ''src/a.txt'']\<rparr>)"
  by (simp add: print_files_found [OF wf_locked_dir resolve_locked_dir] join_def emit_def init_def)

lemma wf_linked_file: "wf_node fs_linked_file"
  by (simp add: fs_linked_file_def wf_name_def)

lemma resolve_linked_file:
  "resolve fs_linked_file ''src'' =
     Some (Dir [(''a.txt'', File (Text ''hello'')),
                (''again.txt'', Link (Some (File (Text ''hello''))))])"
  by (simp add: fs_linked_file_def resolve_def components_def entry_def)

lemma run_linked_file:
  "print_files fs_linked_file ''src'' init =
     (None, \<lparr>stdout = file_block ''src/a.txt'' (''hello'' @ [LF]) @
                       file_block ''src/again.txt'' (''hello'' @ [LF]),
             fd_log = [Opened ''src/a.txt'', Closed ''src/a.txt'',
                       Opened ''src/again.txt'', Closed ''src/again.txt'']\<rparr>)"
  by (simp add: print_files_found [OF wf_linked_file resolve_linked_file] join_def emit_def init_def)






section \<open>The properties of the specification\<close>

text \<open>
  C1, as stated: the text between the fence lines of a text file is the content of the
  file. For \<^verbatim>\<open>src/a.txt\<close> holding \<^verbatim>\<open>hello\<close> the output is the block around
  \<^verbatim>\<open>hello\<close> and a line end, which \<^verbatim>\<open>print\<close> adds, not the block around \<^verbatim>\<open>hello\<close>.
\<close>

theorem text_between_fences_counterexample:
  "stdout (snd (print_files fs_one_file ''src'' init)) = file_block ''src/a.txt'' (''hello'' @ [LF]) \<and>
   stdout (snd (print_files fs_one_file ''src'' init)) \<noteq> file_block ''src/a.txt'' ''hello''"
  by (simp add: run_one_file file_block_def closing_fence_def)

text \<open>
  C1, amended. For every text file the loop reaches, the text between its opening fence
  line and its closing fence line is what \<^verbatim>\<open>read\<close> returned, followed by one line end;
  what \<^verbatim>\<open>read\<close> returns is the content of the file with \<^verbatim>\<open>\r\n\<close> and \<^verbatim>\<open>\r\<close>
  turned into \<^verbatim>\<open>\n\<close>, so it is the content itself when that has no carriage return.
\<close>

theorem text_between_fences:
  assumes "wf_node fs" and "resolve fs dir = Some root"
    and "files_under dir root = pre @ (p, Text s) # post"
    and "\<forall>e \<in> set pre. is_text (snd e)"
  shows "(\<exists>rest. stdout (snd (print_files fs dir st)) =
            stdout st @ concat (map block_of pre) @
              header p @ opening_fence @ (universal_newlines s @ [LF]) @ closing_fence @ rest) \<and>
         (CR \<notin> set s \<longrightarrow> universal_newlines s = s)"
  using dump_files_reaches_text [OF assms(4), of p s post st]
  by (simp add: print_files_found [OF assms(1,2)] assms(3) universal_newlines_no_CR)

theorem text_between_fences_witness:
  "(\<exists>rest. stdout (snd (print_files fs_scenario ''src'' init)) =
      stdout init @ concat (map block_of [(''src/a.txt'', Text ''hello'')]) @
        header ''src/sub/b.txt'' @ opening_fence @ (universal_newlines ''world'' @ [LF]) @ closing_fence @ rest) \<and>
   universal_newlines ''world'' = ''world''"
  using text_between_fences [OF wf_scenario resolve_scenario files_scenario_second, of init]
  by simp

text \<open>
  C2. Every file the loop reaches gets, right after its header line, the opening fence
  line \<^verbatim>\<open>```rust\<close>, whatever its name and whatever it holds: text, bytes that do not
  decode, or nothing the process may open. A file is reached when every file before it in
  the walk could be read.
\<close>

theorem opening_fence_is_rust:
  assumes "wf_node fs" and "resolve fs dir = Some root"
    and "files_under dir root = pre @ (p, d) # post"
    and "\<forall>e \<in> set pre. is_text (snd e)"
  shows "\<exists>rest. stdout (snd (print_files fs dir st)) =
           stdout st @ concat (map block_of pre) @ header p @ ''```rust'' @ [LF] @ rest"
  using dump_files_reaches [OF assms(4), of p d post st]
  by (simp add: print_files_found [OF assms(1,2)] assms(3) opening_fence_def)

theorem opening_fence_is_rust_witness:
  "\<exists>rest. stdout (snd (print_files fs_binary_last ''src'' init)) =
     stdout init @ concat (map block_of [(''src/a.txt'', Text ''hello'')]) @
       header ''src/logo.png'' @ ''```rust'' @ [LF] @ rest"
  by (rule opening_fence_is_rust [OF wf_binary_last resolve_binary_last files_binary_last]) simp

text \<open>
  C3, as stated: a root with \<open>N\<close> regular files gives \<open>N\<close> blocks, one per file. Three
  roots where it does not. In the first, \<^verbatim>\<open>src\<close> has two regular files and the first
  does not decode: the run stops at it with one header, one opening fence and no closing
  fence. In the second, \<^verbatim>\<open>src\<close> has two regular files that open and decode, one of
  them in a subdirectory that cannot be listed: the walk skips that directory without a
  word, and one block is printed. In the third, \<^verbatim>\<open>src\<close> has one regular file and a
  link to it: the walk lists the link among the files, and two blocks are printed.
\<close>

theorem every_file_dumped_once_counterexample:
  "map_option count_regular (resolve fs_binary_first ''src'') = Some 2 \<and>
   print_files fs_binary_first ''src'' init =
     (Some UnicodeDecodeError,
      \<lparr>stdout = header ''src/logo.png'' @ opening_fence,
       fd_log = [Opened ''src/logo.png'', Closed ''src/logo.png'']\<rparr>) \<and>
   map_option count_regular (resolve fs_locked_dir ''src'') = Some 2 \<and>
   open_r fs_locked_dir ''src/private/b.txt'' = Inr (Text ''world'') \<and>
   print_files fs_locked_dir ''src'' init =
     (None, \<lparr>stdout = file_block ''src/a.txt'' (''hello'' @ [LF]),
             fd_log = [Opened ''src/a.txt'', Closed ''src/a.txt'']\<rparr>) \<and>
   map_option count_regular (resolve fs_linked_file ''src'') = Some 1 \<and>
   print_files fs_linked_file ''src'' init =
     (None, \<lparr>stdout = file_block ''src/a.txt'' (''hello'' @ [LF]) @
                       file_block ''src/again.txt'' (''hello'' @ [LF]),
             fd_log = [Opened ''src/a.txt'', Closed ''src/a.txt'',
                       Opened ''src/again.txt'', Closed ''src/again.txt'']\<rparr>)"
proof -
  have "open_r fs_locked_dir ''src/private/b.txt'' = Inr (Text ''world'')"
    by (simp add: open_r_def fs_locked_dir_def resolve_def components_def entry_def)
  then show ?thesis
    by (simp add: resolve_binary_first run_binary_first resolve_locked_dir run_locked_dir
        resolve_linked_file run_linked_file)
qed

text \<open>
  C3, amended. For every root directory in which every directory can be listed, every
  other entry is a regular file, and all the regular files, \<open>N\<close> of them at any depth, can
  be opened and decoded, \<^verbatim>\<open>print_files\<close> raises nothing and prints exactly one block
  per file, in the order of the walk: the path and a colon, the opening fence line, the
  text read and a line end, the closing fence line, a blank line. There are \<open>N\<close> blocks,
  their paths are pairwise different, and each path names the regular file whose text its
  block holds.
\<close>

theorem every_file_dumped_once:
  assumes "wf_node fs" and "resolve fs dir = Some (Dir es)" and "plain (Dir es)"
    and "\<forall>e \<in> set (files_under dir (Dir es)). is_text (snd e)"
  shows "fst (print_files fs dir st) = None \<and>
         stdout (snd (print_files fs dir st)) =
           stdout st @
           concat (map (\<lambda>(p, d). header p @ opening_fence @ text_of d @ [LF] @ closing_fence @ [LF])
                       (files_under dir (Dir es))) \<and>
         length (files_under dir (Dir es)) = count_regular (Dir es) \<and>
         distinct (map fst (files_under dir (Dir es))) \<and>
         (\<forall>e \<in> set (files_under dir (Dir es)). resolve fs (fst e) = Some (File (snd e)))"
proof -
  have wf: "wf_node (Dir es)"
    using assms(1,2) by (rule wf_resolve)
  have "print_files fs dir st =
          (None, emit (concat (map block_of (files_under dir (Dir es))))
                      (concat (map events_of (files_under dir (Dir es)))) st)"
    by (simp only: print_files_found [OF assms(1,2)] dump_files_all_text [OF assms(4)])
  then have run: "fst (print_files fs dir st) = None"
    "stdout (snd (print_files fs dir st)) =
       stdout st @
       concat (map (\<lambda>(p, d). header p @ opening_fence @ text_of d @ [LF] @ closing_fence @ [LF])
                   (files_under dir (Dir es)))"
    by (simp_all add: emit_def block_of_eq)
  have n: "length (files_under dir (Dir es)) = count_regular (Dir es)"
    using length_files_under(1) [OF assms(3), of dir] by simp
  have d: "distinct (map fst (files_under dir (Dir es)))"
    using wf by (rule files_under_distinct(1))
  have r: "resolve fs (fst e) = Some (File (snd e))" if "e \<in> set (files_under dir (Dir es))" for e
    using files_under_resolve(1) [OF _ assms(2) wf assms(3), of "fst e" "snd e"] that by simp
  show ?thesis
    using run n d r by blast
qed

theorem every_file_dumped_once_witness:
  "fst (print_files fs_scenario ''src'' init) = None \<and>
   stdout (snd (print_files fs_scenario ''src'' init)) =
     header ''src/a.txt'' @ opening_fence @ ''hello'' @ [LF] @ closing_fence @ [LF] @
     header ''src/sub/b.txt'' @ opening_fence @ ''world'' @ [LF] @ closing_fence @ [LF] \<and>
   count_regular (Dir [(''a.txt'', File (Text ''hello'')), (''sub'', Dir [(''b.txt'', File (Text ''world''))])]) = 2"
  using every_file_dumped_once [OF wf_scenario resolve_scenario, of init] files_scenario
  by (simp add: init_def)



text \<open>
  C5. When \<^verbatim>\<open>src\<close> does not exist, the tree renderer of the spec raises: the run ends
  with status 1 after the header line and the opening fence of the tree block. Nothing is
  printed for any file: \<^verbatim>\<open>print_files\<close> is not reached, and with any renderer the
  output of the program is the output of \<^verbatim>\<open>print_tree\<close> alone.
\<close>

theorem missing_root_fails:
  assumes "resolve fs ''src'' = None"
  shows "main (DisplayTree_spec layout) fs =
           (Some FileNotFoundError, \<lparr>stdout = tree_head, fd_log = []\<rparr>) \<and>
         exit_status (main (DisplayTree_spec layout) fs) = 1 \<and>
         stdout (snd (main DisplayTree fs)) = stdout (snd (print_tree DisplayTree fs ''src'' init))"
proof -
  have "main (DisplayTree_spec layout) fs = (Some FileNotFoundError, \<lparr>stdout = tree_head, fd_log = []\<rparr>)"
    by (simp add: main_def print_tree_eq DisplayTree_spec_def assms emit_def init_def)
  moreover have "main DisplayTree fs = print_tree DisplayTree fs ''src'' init"
    by (simp add: main_def print_files_missing [OF assms] split: prod.splits option.splits)
  ultimately show ?thesis
    by (simp add: exit_status_def)
qed

theorem missing_root_fails_witness:
  "main (DisplayTree_spec names_layout) fs_no_src =
     (Some FileNotFoundError, \<lparr>stdout = ''Directory tree:'' @ [LF] @ ''```'' @ [LF], fd_log = []\<rparr>) \<and>
   exit_status (main (DisplayTree_spec names_layout) fs_no_src) = 1"
  using missing_root_fails [OF resolve_no_src, where layout = names_layout and DisplayTree = name_only]
  by (auto simp: tree_head_def)

text \<open>
  C6. When the loop reaches a file that cannot be opened or does not decode,
  \<^verbatim>\<open>print_files\<close> raises that file's exception. Standard output then holds the blocks of
  the files before it, its own header and opening fence, and nothing of the files after
  it. The run of the program ends with status 1; when the tree renderer has returned, it
  ends with the exception of that file, and its output is the tree block followed by what
  \<^verbatim>\<open>print_files\<close> had printed.
\<close>

theorem unreadable_file_aborts:
  assumes "wf_node fs" and "resolve fs dir = Some root"
    and "files_under dir root = pre @ (p, d) # post"
    and "\<forall>e \<in> set pre. is_text (snd e)" and "\<not> is_text d"
  shows "print_files fs dir st =
           (error_of d,
            emit (concat (map block_of pre) @ header p @ opening_fence)
                 (concat (map events_of pre) @ events_of (p, d)) st) \<and>
         error_of d \<noteq> None \<and>
         (dir = ''src'' \<longrightarrow>
            exit_status (main DisplayTree fs) = 1 \<and>
            (snd (DisplayTree fs ''src'') = None \<longrightarrow>
               main DisplayTree fs =
                 (error_of d,
                  \<lparr>stdout = tree_block (fst (DisplayTree fs ''src'')) @
                            concat (map block_of pre) @ header p @ opening_fence,
                   fd_log = concat (map events_of pre) @ events_of (p, d)\<rparr>)))"
proof -
  have run: "print_files fs dir st =
           (error_of d,
            emit (concat (map block_of pre) @ header p @ opening_fence)
                 (concat (map events_of pre) @ events_of (p, d)) st)" for st
    by (simp add: print_files_found [OF assms(1,2)] assms(3) dump_files_first_failure [OF assms(4,5)])
  have err: "error_of d \<noteq> None"
    using assms(5) by (cases d) simp_all
  have status: "exit_status (main DisplayTree fs) = 1" if "dir = ''src''"
    using run err that
    by (auto simp: main_def exit_status_def print_tree_eq split: option.splits prod.splits)
  have whole: "main DisplayTree fs =
       (error_of d,
        \<lparr>stdout = tree_block (fst (DisplayTree fs ''src'')) @
                  concat (map block_of pre) @ header p @ opening_fence,
         fd_log = concat (map events_of pre) @ events_of (p, d)\<rparr>)"
    if "dir = ''src''" and "snd (DisplayTree fs ''src'') = None"
    using run that
    by (simp add: main_def print_tree_eq tree_block_def emit_def init_def)
  show ?thesis
    using run err status whole by blast
qed

theorem unreadable_file_aborts_witness:
  "print_files fs_binary_last ''src'' init =
     (Some UnicodeDecodeError,
      emit (concat (map block_of [(''src/a.txt'', Text ''hello'')]) @ header ''src/logo.png'' @ opening_fence)
           (concat (map events_of [(''src/a.txt'', Text ''hello'')]) @ events_of (''src/logo.png'', Binary)) init) \<and>
   exit_status (main name_only fs_binary_last) = 1 \<and>
   main name_only fs_binary_last =
     (Some UnicodeDecodeError,
      \<lparr>stdout = tree_block (''src/'' @ [LF]) @ file_block ''src/a.txt'' (''hello'' @ [LF]) @
                header ''src/logo.png'' @ opening_fence,
       fd_log = [Opened ''src/a.txt'', Closed ''src/a.txt'',
                 Opened ''src/logo.png'', Closed ''src/logo.png'']\<rparr>)"
  using unreadable_file_aborts [OF wf_binary_last resolve_binary_last files_binary_last, of init name_only]
  by (auto simp: name_only_def block_of_def)

text \<open>
  C7. When the root exists and holds no file at any depth (every name below it is a
  directory or a link to one), \<^verbatim>\<open>print_files\<close>
  prints nothing and raises nothing, while \<^verbatim>\<open>print_tree\<close>, when the renderer returns,
  prints the header line and the rendering between its two fences.
\<close>

theorem no_files_no_dump:
  assumes "resolve fs dir = Some root" and "count_files root = 0"
  shows "print_files fs dir st = (None, st) \<and>
         (snd (DisplayTree fs dir) = None \<longrightarrow>
            print_tree DisplayTree fs dir st =
              (None, emit (tree_block (fst (DisplayTree fs dir))) [] st))"
  using assms
  by (simp add: print_files_def os_walk_def no_files_nothing_printed(1) print_tree_eq tree_block_def)

theorem no_files_no_dump_witness:
  "print_files fs_no_files ''src'' init = (None, init) \<and>
   print_tree name_only fs_no_files ''src'' init =
     (None, emit (tree_block (''src/'' @ [LF])) [] init)"
  using no_files_no_dump [OF resolve_no_files, of init name_only]
  by (simp add: name_only_def)

text \<open>
  C8. The \<^verbatim>\<open>with\<close> block opens at most one handle and closes it before it is left,
  whether \<^verbatim>\<open>read\<close> returned or raised; when \<^verbatim>\<open>open\<close> raised there is no handle.
  So in every run of \<^verbatim>\<open>print_files\<close> and of the program, however it ends, no handle
  is open at the end and at most one is open at any moment.
\<close>

theorem handle_released:
  "fd_log (snd (with_open_print fs path st)) =
     fd_log st @ (case open_r fs path of Inl e \<Rightarrow> [] | Inr f \<Rightarrow> [Opened path, Closed path]) \<and>
   (open_r fs path = Inr Binary \<longrightarrow>
      with_open_print fs path st = (Some UnicodeDecodeError, emit [] [Opened path, Closed path] st)) \<and>
   handles_after [] (fd_log (snd (print_files fs dir init))) = [] \<and>
   peak_handles [] (fd_log (snd (print_files fs dir init))) \<le> 1 \<and>
   handles_after [] (fd_log (snd (main DisplayTree fs))) = [] \<and>
   peak_handles [] (fd_log (snd (main DisplayTree fs))) \<le> 1"
proof -
  have block: "fd_log (snd (with_open_print fs path st)) =
     fd_log st @ (case open_r fs path of Inl e \<Rightarrow> [] | Inr f \<Rightarrow> [Opened path, Closed path])"
    by (auto simp: with_open_print_def print_def Let_def split: sum.splits prod.splits)
  have failing: "with_open_print fs path st = (Some UnicodeDecodeError, emit [] [Opened path, Closed path] st)"
    if "open_r fs path = Inr Binary"
    using that by (simp add: with_open_print_def log_emit emit_emit)
  have files: "\<exists>ps. fd_log (snd (print_files fs d st)) = fd_log st @ concat (map (\<lambda>p. [Opened p, Closed p]) ps)"
    for d st
    using print_files_adds [of fs d] by (auto simp: emit_def)
  obtain ps where ps: "fd_log (snd (print_files fs dir init)) = concat (map (\<lambda>p. [Opened p, Closed p]) ps)"
    using files [of dir init] by (auto simp: init_def)
  have "\<exists>ps. fd_log (snd (main DisplayTree fs)) = concat (map (\<lambda>p. [Opened p, Closed p]) ps)"
  proof (cases "snd (DisplayTree fs ''src'')")
    case None
    then show ?thesis
      using files [of "''src''" "emit (tree_block (fst (DisplayTree fs ''src''))) [] init"]
      by (simp add: main_def print_tree_eq tree_block_def emit_def init_def)
  next
    case (Some e)
    have "fd_log (snd (main DisplayTree fs)) = concat (map (\<lambda>p. [Opened p, Closed p]) [])"
      by (simp add: main_def print_tree_eq Some emit_def init_def)
    then show ?thesis by blast
  qed
  then obtain qs where qs: "fd_log (snd (main DisplayTree fs)) = concat (map (\<lambda>p. [Opened p, Closed p]) qs)"
    by blast
  show ?thesis
    using block failing peak_handles_pairs [of "[]" ps] peak_handles_pairs [of "[]" qs]
    by (simp add: ps qs handles_after_pairs)
qed

theorem handle_released_witness:
  "fd_log (snd (with_open_print fs_binary_last ''src/logo.png'' init)) =
     [Opened ''src/logo.png'', Closed ''src/logo.png''] \<and>
   fst (with_open_print fs_binary_last ''src/logo.png'' init) = Some UnicodeDecodeError \<and>
   handles_after [] (fd_log (snd (print_files fs_binary_last ''src'' init))) = [] \<and>
   peak_handles [] (fd_log (snd (print_files fs_binary_last ''src'' init))) \<le> 1"
proof -
  have o: "open_r fs_binary_last ''src/logo.png'' = Inr Binary"
    by (simp add: open_r_def fs_binary_last_def resolve_def components_def entry_def)
  show ?thesis
    using handle_released [of fs_binary_last "''src/logo.png''" init "''src''" name_only]
    by (simp add: o init_def emit_def)
qed

text \<open>
  C9. On a root that does not resolve, the walk yields nothing, \<^verbatim>\<open>print_files\<close> prints
  nothing and raises nothing; the run of the program is then the run of \<^verbatim>\<open>print_tree\<close>
  alone, and it ends with status 1 exactly when the tree renderer raised.
\<close>

theorem print_files_missing_root_silent:
  assumes "resolve fs dir = None"
  shows "os_walk fs dir = [] \<and> print_files fs dir st = (None, st) \<and>
         (dir = ''src'' \<longrightarrow>
            main DisplayTree fs = print_tree DisplayTree fs ''src'' init \<and>
            exit_status (main DisplayTree fs) = (if snd (DisplayTree fs ''src'') = None then 0 else 1))"
  using assms
  by (auto simp: os_walk_def print_files_missing main_def exit_status_def print_tree_eq
      split: option.splits)

theorem print_files_missing_root_silent_witness:
  "os_walk fs_no_src ''src'' = [] \<and> print_files fs_no_src ''src'' init = (None, init) \<and>
   main name_only fs_no_src = print_tree name_only fs_no_src ''src'' init \<and>
   exit_status (main name_only fs_no_src) = 0"
proof -
  have "snd (name_only fs_no_src ''src'') = None"
    by (simp add: name_only_def)
  with print_files_missing_root_silent [OF resolve_no_src, of init name_only]
  show ?thesis by auto
qed




end
